theory Spec2Isabelle
  imports Main
begin

section \<open>Python string primitives used by lifecycle.py\<close>

text \<open>
  A Python \<open>str\<close> is modelled as a \<open>string\<close>, one list element per character
  (Python's \<open>len\<close> counts characters, so does \<open>length\<close> here); Python's unbounded
  integers are \<open>int\<close>.
\<close>

text \<open>
  \<open>s[:k]\<close>: a negative stop counts from the end of the string, and a stop beyond either
  end is clipped.
\<close>

definition slice_to :: "string \<Rightarrow> int \<Rightarrow> string" where
  "slice_to s k = (if k < 0 then take (nat (int (length s) + k)) s else take (nat k) s)"

text \<open>\<open>s.ljust(w)\<close>: spaces are appended up to width \<open>w\<close>; a longer \<open>s\<close> is returned as it is.\<close>

definition ljust :: "string \<Rightarrow> int \<Rightarrow> string" where
  "ljust s w = s @ replicate (nat (w - int (length s))) CHR '' ''"

text \<open>
  The conditional expression of lines 57 and 65 of \<open>_handle_progress_bar\<close>, which the source
  writes out twice, once over \<open>status.message\<close> and once over \<open>status.text\<close>:
  \<^verbatim>\<open>(t[:tw-3] + '...') if len(t) > tw-3 else t.ljust(tw)\<close>
\<close>

definition bound_text :: "string \<Rightarrow> int \<Rightarrow> string" where
  "bound_text t tw =
     (if int (length t) > tw - 3 then slice_to t (tw - 3) @ ''...'' else ljust t tw)"

section \<open>Exceptions, payloads, widgets\<close>

text \<open>
  The exceptions that reach the code. \<open>ValueError\<close> is what \<open>max\<close> raises on an empty
  sequence, \<open>KeyError\<close> what \<open>progress_bars[service_name]\<close> raises on a missing key,
  \<open>AttributeError\<close> what \<open>status.text\<close> or \<open>status.message\<close> raises on a payload without
  that attribute. \<open>EngineError\<close> stands for any other instance of \<open>Exception\<close> raised by
  the engine's event stream, \<open>KeyboardInterrupt\<close> for the instances of \<open>BaseException\<close>
  that are not instances of \<open>Exception\<close> (an \<open>except Exception\<close> clause lets them pass).
  \<open>RiptideCliError msg cause\<close> is \<open>RiptideCliError(msg, ctx)\<close> raised \<open>from cause\<close>.
\<close>

datatype exc =
    ValueError
  | KeyError string
  | AttributeError
  | EngineError string
  | KeyboardInterrupt
  | RiptideCliError string exc

fun is_Exception :: "exc \<Rightarrow> bool" where
  "is_Exception KeyboardInterrupt = False"
| "is_Exception _ = True"

text \<open>
  The \<open>status\<close> element of an event of the engine: a step result with \<open>text\<close>,
  \<open>current_step\<close> and \<open>steps\<close> (which may be \<open>None\<close>), an error result with
  \<open>message\<close>, or \<open>None\<close>. Only \<open>None\<close> is falsy.
\<close>

datatype payload =
    InProgress string int "int option"
  | Failure string
  | Absent

fun truthy :: "payload \<Rightarrow> bool" where
  "truthy Absent = False"
| "truthy _ = True"

fun status_text :: "payload \<Rightarrow> exc + string" where
  "status_text (InProgress t c st) = Inr t"
| "status_text _ = Inl AttributeError"

fun status_message :: "payload \<Rightarrow> exc + string" where
  "status_message (Failure m) = Inr m"
| "status_message _ = Inl AttributeError"

fun status_steps :: "payload \<Rightarrow> exc + int option" where
  "status_steps (InProgress t c st) = Inr st"
| "status_steps _ = Inl AttributeError"

fun status_current_step :: "payload \<Rightarrow> exc + int" where
  "status_current_step (InProgress t c st) = Inr c"
| "status_current_step _ = Inl AttributeError"

text \<open>
  A \<open>tqdm\<close> progress bar, as far as lifecycle.py reads and writes it: \<open>total\<close>, the
  \<open>position\<close> given at creation, the counter \<open>n\<close>, element 0 of the one-element
  \<open>postfix\<close> list, the text handed to \<open>set_description\<close>, and \<open>bar_format\<close>.
  The library itself is not part of the repository; \<open>update\<close> follows the contract that
  the comment at line 69 relies on: it adds its argument to \<open>n\<close>.
\<close>

record tqdm =
  tq_total :: "int option"
  tq_position :: nat
  tq_n :: int
  tq_postfix0 :: string
  tq_desc :: string
  tq_bar_format :: string

definition new_tqdm :: "nat \<Rightarrow> string \<Rightarrow> tqdm" where
  "new_tqdm i pf =
     \<lparr>tq_total = Some 1, tq_position = i, tq_n = 0, tq_postfix0 = pf, tq_desc = [],
      tq_bar_format = ''{desc}{n_fmt}/{total_fmt}|{bar}| {postfix[0]}''\<rparr>"

definition set_description :: "string \<Rightarrow> tqdm \<Rightarrow> tqdm" where
  "set_description d bar = bar\<lparr>tq_desc := d\<rparr>"

definition update :: "int \<Rightarrow> tqdm \<Rightarrow> tqdm" where
  "update k bar = bar\<lparr>tq_n := tq_n bar + k\<rparr>"

text \<open>The dictionaries appended to \<open>errors\<close> at line 56.\<close>

record error_record =
  service :: string
  error :: payload

text \<open>
  What the code does to the terminal, in order: a bar is created, redrawn by \<open>refresh()\<close>,
  closed, or a line is printed by \<open>echo\<close>. A bar is named by its position.
\<close>

datatype effect = TqdmNew nat | TqdmRefresh nat | TqdmClose nat | Echo string

fun is_close :: "effect \<Rightarrow> bool" where
  "is_close (TqdmClose i) = True"
| "is_close _ = False"

fun is_new :: "effect \<Rightarrow> bool" where
  "is_new (TqdmNew i) = True"
| "is_new _ = False"

text \<open>
  The surroundings of a run: the values that \<open>text_width_right()\<close> and
  \<open>text_width_error()\<close> return (the terminal is taken not to be resized during one
  operation), the constant \<open>TAB\<close> and the functions \<open>style\<close> and \<open>str\<close>, which
  lifecycle.py imports, and \<open>format_error\<close>: the exception, if any, that the library
  raises when it renders a bar whose \<open>bar_format\<close> holds braces of its own. The library
  renders with \<open>str.format\<close>, whose verdict on such a template (a single brace, an
  unknown field) is Python's and the library's, not the repository's.
\<close>

record env =
  text_width_right :: int
  text_width_error :: int
  TAB :: string
  style :: "string \<Rightarrow> string \<Rightarrow> string"
  str_status :: "payload \<Rightarrow> string"
  format_error :: "string \<Rightarrow> exc option"

text \<open>
  \<open>refresh()\<close> renders the bar with \<open>bar_format.format(...)\<close>. Two kinds of template
  render whatever the values are: the one given at line 42, whose fields the library
  fills, and \<open>"{desc}"\<close> followed by a text without braces, which has no other field. On
  any other template the call returns what \<open>str.format\<close> makes of it.
\<close>

definition has_brace :: "string \<Rightarrow> bool" where
  "has_brace t = (CHR ''{'' \<in> set t \<or> CHR ''}'' \<in> set t)"

definition plain_format :: "string \<Rightarrow> bool" where
  "plain_format fmt =
     (fmt = ''{desc}{n_fmt}/{total_fmt}|{bar}| {postfix[0]}''
      \<or> (take 6 fmt = ''{desc}'' \<and> \<not> has_brace (drop 6 fmt)))"

definition refresh :: "env \<Rightarrow> tqdm \<Rightarrow> exc option" where
  "refresh ev bar =
     (if plain_format (tq_bar_format bar) then None else format_error ev (tq_bar_format bar))"

section \<open>The ordered dictionary of progress bars\<close>

text \<open>
  An \<open>OrderedDict\<close> is an association list in insertion order without duplicate keys.
  Assigning to a key that is present replaces the value and keeps the key's place.
\<close>

fun od_set :: "'k \<Rightarrow> 'v \<Rightarrow> ('k \<times> 'v) list \<Rightarrow> ('k \<times> 'v) list" where
  "od_set k v [] = [(k, v)]"
| "od_set k v ((k', v') # kvs) =
     (if k' = k then (k, v) # kvs else (k', v') # od_set k v kvs)"

text \<open>Mutating the object stored under a key.\<close>

fun od_upd :: "'k \<Rightarrow> ('v \<Rightarrow> 'v) \<Rightarrow> ('k \<times> 'v) list \<Rightarrow> ('k \<times> 'v) list" where
  "od_upd k f [] = []"
| "od_upd k f ((k', v') # kvs) =
     (if k' = k then (k', f v') # kvs else (k', v') # od_upd k f kvs)"

record state =
  progress_bars :: "(string \<times> tqdm) list"
  errors :: "error_record list"
  trace :: "effect list"

section \<open>\<open>_build_progress_bars\<close>\<close>

text \<open>\<open>max(services, key=len)\<close>: the first of the longest elements; \<open>ValueError\<close> on an empty sequence.\<close>

fun max_from :: "string \<Rightarrow> string list \<Rightarrow> string" where
  "max_from m [] = m"
| "max_from m (x # xs) = max_from (if length m < length x then x else m) xs"

definition max_key_len :: "string list \<Rightarrow> exc + string" where
  "max_key_len services =
     (case services of [] \<Rightarrow> Inl ValueError | x # xs \<Rightarrow> Inr (max_from x xs))"

text \<open>
  The bar that one turn of the loop leaves under \<open>service_name\<close>: the one created at
  lines 39 to 44, after \<open>set_description\<close> at line 46.
\<close>

definition fresh_bar :: "env \<Rightarrow> nat \<Rightarrow> nat \<Rightarrow> string \<Rightarrow> tqdm" where
  "fresh_bar ev longest i service_name =
     set_description (ljust service_name (int longest))
       (new_tqdm i (ljust ''...'' (text_width_right ev)))"

text \<open>The loop of lines 37 to 46, with its counter \<open>i\<close>.\<close>

fun build_loop ::
  "env \<Rightarrow> nat \<Rightarrow> nat \<Rightarrow> string list \<Rightarrow> (string \<times> tqdm) list \<Rightarrow> effect list \<Rightarrow>
   (string \<times> tqdm) list \<times> effect list" where
  "build_loop ev longest i [] bars out = (bars, out)"
| "build_loop ev longest i (service_name # rest) bars out =
     build_loop ev longest (i + 1) rest
       (od_upd service_name (set_description (ljust service_name (int longest)))
          (od_set service_name (new_tqdm i (ljust ''...'' (text_width_right ev))) bars))
       (out @ [TqdmNew i])"

definition build_progress_bars ::
  "env \<Rightarrow> string list \<Rightarrow> (exc + (string \<times> tqdm) list) \<times> effect list" where
  "build_progress_bars ev services =
     (case max_key_len services of
        Inl e \<Rightarrow> (Inl e, [])
      | Inr m \<Rightarrow>
          (case build_loop ev (length m) 0 services [] [] of
             (bars, out) \<Rightarrow> (Inr bars, out)))"

section \<open>\<open>_handle_progress_bar\<close>\<close>

text \<open>Lines 66 to 70 on the bar of the service.\<close>

definition progress_step :: "string \<Rightarrow> int option \<Rightarrow> int \<Rightarrow> tqdm \<Rightarrow> tqdm" where
  "progress_step text_for_status steps current_step bar =
     (let bar1 = bar\<lparr>tq_postfix0 := text_for_status\<rparr>;
          bar2 = (if tq_total bar1 \<noteq> steps \<and> steps \<noteq> None
                  then bar1\<lparr>tq_total := steps\<rparr> else bar1)
      in update (current_step - tq_n bar2) bar2)"

text \<open>
  The handler returns the exception it raises, if any, and the state it leaves: the list
  \<open>errors\<close> and the bars are mutated in place, so what is done before a raise stays.
  The calls of \<open>refresh()\<close> at lines 59 and 71 come last and may raise.
\<close>

definition handle_progress_bar ::
  "env \<Rightarrow> string \<Rightarrow> payload \<Rightarrow> bool \<Rightarrow> state \<Rightarrow> exc option \<times> state" where
  "handle_progress_bar ev service_name status finished s =
     (if finished then
        (if truthy status then
           (let tw = text_width_error ev;
                s1 = s\<lparr>errors := errors s @ [\<lparr>service = service_name, error = status\<rparr>]\<rparr>
            in case status_message status of
                 Inl e \<Rightarrow> (Some e, s1)
               | Inr message \<Rightarrow>
                   (let msg = bound_text message tw
                    in case map_of (progress_bars s1) service_name of
                         None \<Rightarrow> (Some (KeyError service_name), s1)
                       | Some bar \<Rightarrow>
                           (let s2 = s1\<lparr>progress_bars :=
                                          od_upd service_name
                                            (\<lambda>b. b\<lparr>tq_bar_format := ''{desc}'' @ msg\<rparr>)
                                            (progress_bars s1)\<rparr>
                            in case refresh ev (bar\<lparr>tq_bar_format := ''{desc}'' @ msg\<rparr>) of
                                 Some e \<Rightarrow> (Some e, s2)
                               | None \<Rightarrow>
                                   (None,
                                    s2\<lparr>trace := trace s2 @ [TqdmRefresh (tq_position bar)]\<rparr>))))
         else (None, s))
      else
        (let tw = text_width_right ev
         in case status_text status of
              Inl e \<Rightarrow> (Some e, s)
            | Inr text \<Rightarrow>
                (let text_for_status = bound_text text tw
                 in case map_of (progress_bars s) service_name of
                      None \<Rightarrow> (Some (KeyError service_name), s)
                    | Some bar \<Rightarrow>
                        (case (status_steps status, status_current_step status) of
                           (Inr steps, Inr current_step) \<Rightarrow>
                             (let s2 = s\<lparr>progress_bars :=
                                           od_upd service_name
                                             (progress_step text_for_status steps current_step)
                                             (progress_bars s)\<rparr>
                              in case refresh ev
                                        (progress_step text_for_status steps current_step bar) of
                                   Some e \<Rightarrow> (Some e, s2)
                                 | None \<Rightarrow>
                                     (None,
                                      s2\<lparr>trace := trace s2 @ [TqdmRefresh (tq_position bar)]\<rparr>))
                         | _ \<Rightarrow> (Some AttributeError, s)))))"

section \<open>\<open>start_project\<close> and \<open>stop_project\<close>\<close>

text \<open>
  The engine's asynchronous generator, as the list of what each \<open>__anext__\<close> gives: an
  event \<open>(service_name, status, finished)\<close> or a raised exception; the end of the list is
  the normal end of the stream. Nothing is read after a raise.
\<close>

datatype stream_item = Event string payload bool | Raise exc

text \<open>The body of the \<open>async for\<close> loop: the first exception ends it.\<close>

fun consume :: "env \<Rightarrow> stream_item list \<Rightarrow> state \<Rightarrow> exc option \<times> state" where
  "consume ev [] s = (None, s)"
| "consume ev (Raise e # rest) s = (Some e, s)"
| "consume ev (Event service_name status finished # rest) s =
     (case handle_progress_bar ev service_name status finished s of
        (Some e, s') \<Rightarrow> (Some e, s')
      | (None, s') \<Rightarrow> consume ev rest s')"

text \<open>
  The \<open>try\<close> statement around the loop: \<open>except Exception as err\<close> raises
  \<open>RiptideCliError(msg, ctx) from err\<close>; an exception that is not an instance of
  \<open>Exception\<close> is not caught.
\<close>

definition try_stream :: "string \<Rightarrow> env \<Rightarrow> stream_item list \<Rightarrow> state \<Rightarrow> exc option \<times> state" where
  "try_stream msg ev stream s =
     (case consume ev stream s of
        (Some err, s') \<Rightarrow>
          (if is_Exception err then (Some (RiptideCliError msg err), s') else (Some err, s'))
      | (None, s') \<Rightarrow> (None, s'))"

text \<open>The loop \<open>for bar in reversed(ctx.progress_bars.values()): bar.close(); echo()\<close>.\<close>

fun close_loop :: "tqdm list \<Rightarrow> effect list" where
  "close_loop [] = []"
| "close_loop (bar # rest) = TqdmClose (tq_position bar) # Echo [] # close_loop rest"

definition close_progress_bars :: "(string \<times> tqdm) list \<Rightarrow> effect list" where
  "close_progress_bars bars = close_loop (rev (map snd bars))"

text \<open>\<open>_display_errors\<close>; the second argument of \<open>style\<close> names the options of the call.\<close>

fun display_loop :: "env \<Rightarrow> error_record list \<Rightarrow> effect list" where
  "display_loop ev [] = []"
| "display_loop ev (e # rest) =
     Echo (TAB ev @ style ev (service e @ '':'') ''bold,fg=red'')
     # Echo (TAB ev @ style ev (str_status ev (error e)) ''bg=red'')
     # Echo []
     # display_loop ev rest"

definition display_errors :: "env \<Rightarrow> error_record list \<Rightarrow> effect list" where
  "display_errors ev errs =
     (if length errs > 0
      then Echo (style ev ''There were errors while starting some of the services: ''
                   ''fg=red,bold'')
           # display_loop ev errs
      else [])"

text \<open>
  The state after lines 95 to 99: the two lines printed, the board built (when the builder
  returns), the list \<open>errors\<close> empty.
\<close>

definition board_state :: "string \<Rightarrow> env \<Rightarrow> string list \<Rightarrow> state" where
  "board_state banner ev services =
     (case build_progress_bars ev services of
        (Inl e, out) \<Rightarrow>
          \<lparr>progress_bars = [], errors = [], trace = [Echo banner, Echo []] @ out\<rparr>
      | (Inr bars, out) \<Rightarrow>
          \<lparr>progress_bars = bars, errors = [], trace = [Echo banner, Echo []] @ out\<rparr>)"

text \<open>
  \<open>start_project\<close> and \<open>stop_project\<close> have the same body up to the two messages.
  \<open>services\<close> is the list after the default of lines 92 and 93; \<open>status_report\<close> is what
  \<open>status_project(ctx)\<close> prints, which depends on the engine only.
\<close>

definition run_lifecycle ::
  "string \<Rightarrow> string \<Rightarrow> env \<Rightarrow> string list \<Rightarrow> stream_item list \<Rightarrow> bool \<Rightarrow> effect list \<Rightarrow>
   exc option \<times> state" where
  "run_lifecycle banner msg ev services stream show_status status_report =
     (case fst (build_progress_bars ev services) of
        Inl e \<Rightarrow> (Some e, board_state banner ev services)
      | Inr bars \<Rightarrow>
          (case try_stream msg ev stream (board_state banner ev services) of
             (Some e, s) \<Rightarrow> (Some e, s)
           | (None, s) \<Rightarrow>
               (None,
                s\<lparr>trace := trace s @ close_progress_bars (progress_bars s)
                            @ display_errors ev (errors s)
                            @ (if show_status then status_report else [])\<rparr>)))"

definition start_project ::
  "env \<Rightarrow> string list \<Rightarrow> stream_item list \<Rightarrow> bool \<Rightarrow> effect list \<Rightarrow> exc option \<times> state" where
  "start_project = run_lifecycle ''Starting services...'' ''Error starting the services''"

definition stop_project ::
  "env \<Rightarrow> string list \<Rightarrow> stream_item list \<Rightarrow> bool \<Rightarrow> effect list \<Rightarrow> exc option \<times> state" where
  "stop_project = run_lifecycle ''Stopping services...'' ''Error stopping the services''"

text \<open>
  A terminal without a size, where both widths fall back to 45, for the examples. No
  example renders a template with braces of its own.
\<close>

definition env45 :: env where
  "env45 = \<lparr>text_width_right = 45, text_width_error = 45, TAB = ''    '',
            style = (\<lambda>t opts. t),
            str_status = (\<lambda>p. case p of Failure m \<Rightarrow> m | InProgress t c st \<Rightarrow> t | Absent \<Rightarrow> ''None''),
            format_error = (\<lambda>fmt. Some ValueError)\<rparr>"

text \<open>A terminal of 80 columns: \<open>round(80 * 0.4) = 32\<close> and \<open>round(80 * 0.7) = 56\<close>.\<close>

definition env80 :: env where
  "env80 = env45\<lparr>text_width_right := 32, text_width_error := 56\<rparr>"

text \<open>A terminal of 3 columns: \<open>round(3 * 0.4) = 1\<close> and \<open>round(3 * 0.7) = 2\<close>.\<close>

definition env3 :: env where
  "env3 = env45\<lparr>text_width_right := 1, text_width_error := 2\<rparr>"

text \<open>The state in which \<open>start_project\<close> enters its loop over the events.\<close>

definition started :: "env \<Rightarrow> string list \<Rightarrow> state" where
  "started = board_state ''Starting services...''"

section \<open>Example inputs\<close>

text \<open>Events for two of three services.\<close>

definition two_of_three :: "stream_item list" where
  "two_of_three =
     [Event ''web'' (InProgress ''starting'' 0 (Some 3)) False,
      Event ''db'' (InProgress ''pulling image'' 1 None) False]"

text \<open>The service \<open>db\<close> fails, the service \<open>web\<close> succeeds.\<close>

definition db_fails :: "stream_item list" where
  "db_fails =
     [Event ''db'' (Failure ''connection refused'') True, Event ''web'' Absent True]"

text \<open>The board of \<open>web\<close> after an event at step 3 of 3.\<close>

definition web_at_3 :: state where
  "web_at_3 = snd (handle_progress_bar env80 ''web'' (InProgress ''started'' 3 (Some 3)) False
                     (started env80 [''web'']))"

text \<open>The board of \<open>db\<close> after its failure event.\<close>

definition db_failed :: state where
  "db_failed = snd (handle_progress_bar env80 ''db'' (Failure ''connection refused'') True
                      (started env80 [''db'']))"

text \<open>The bar of \<open>db\<close> in that board.\<close>

definition db_failed_bar :: tqdm where
  "db_failed_bar =
     (fresh_bar env80 2 0 ''db'')\<lparr>tq_bar_format := ''{desc}'' @ bound_text ''connection refused'' 56\<rparr>"

section \<open>The bounded text\<close>

lemma length_slice_to_nonneg:
  "0 \<le> k \<Longrightarrow> k < int (length s) \<Longrightarrow> int (length (slice_to s k)) = k"
  by (simp add: slice_to_def min_def)

lemma length_ljust:
  "int (length s) \<le> w \<Longrightarrow> int (length (ljust s w)) = w"
  by (simp add: ljust_def)

text \<open>
  C1 (as amended). For every text and every width of at least 3, the bounded text has
  exactly \<open>width\<close> characters: when the text is longer than \<open>width - 3\<close> it is the first
  \<open>width - 3\<close> characters of the text followed by the three dots, and otherwise it is the
  text followed by spaces up to \<open>width\<close> characters.
\<close>

theorem bound_text_exact_width:
  "3 \<le> tw \<Longrightarrow>
     int (length (bound_text t tw)) = tw
     \<and> (tw - 3 < int (length t) \<longrightarrow> bound_text t tw = take (nat (tw - 3)) t @ ''...'')
     \<and> (\<not> tw - 3 < int (length t) \<longrightarrow>
          bound_text t tw = t @ replicate (nat (tw - int (length t))) CHR '' '')"
proof (cases "tw - 3 < int (length t)")
  case True
  assume "3 \<le> tw"
  with True have "int (length (slice_to t (tw - 3))) = tw - 3"
    by (intro length_slice_to_nonneg) simp_all
  moreover from \<open>3 \<le> tw\<close> have "slice_to t (tw - 3) = take (nat (tw - 3)) t"
    by (simp add: slice_to_def)
  ultimately show ?thesis using True by (simp add: bound_text_def)
next
  case False
  then have "int (length (ljust t tw)) = tw"
    by (intro length_ljust) simp
  with False show ?thesis by (simp add: bound_text_def ljust_def)
qed

text \<open>The two examples of the specification, at width 10.\<close>

theorem bound_text_exact_width_witness:
  "(3::int) \<le> 10
   \<and> int (length (bound_text ''Installing dependencies'' 10)) = 10
   \<and> bound_text ''Installing dependencies'' 10 = ''Install...''
   \<and> bound_text ''ok'' 10 = ''ok        ''"
  using bound_text_exact_width [of 10 "''Installing dependencies''"]
        bound_text_exact_width [of 10 "''ok''"]
  by (simp add: numeral_eq_Suc)

text \<open>
  C1 as stated, for every integer width, fails below 3: at width 2 the stop \<open>tw - 3\<close> of
  the slice is negative, one character is cut from the end of the text and the dots are
  appended, which gives four characters.
\<close>

theorem bound_text_narrow_counterexample:
  "bound_text ''ab'' 2 = ''a...'' \<and> int (length (bound_text ''ab'' 2)) \<noteq> 2"
  by (simp add: bound_text_def slice_to_def)

section \<open>The ordered dictionary\<close>

lemma od_set_fresh: "k \<notin> fst ` set kvs \<Longrightarrow> od_set k v kvs = kvs @ [(k, v)]"
  by (induction kvs) auto

lemma od_upd_last: "k \<notin> fst ` set kvs \<Longrightarrow> od_upd k f (kvs @ [(k, v)]) = kvs @ [(k, f v)]"
  by (induction kvs) auto

lemma map_of_od_upd:
  "map_of (od_upd k f kvs) k' = (if k' = k then map_option f (map_of kvs k) else map_of kvs k')"
  by (induction kvs) auto

lemma map_fst_od_upd: "map fst (od_upd k f kvs) = map fst kvs"
  by (induction kvs) auto

lemma map_position_od_upd:
  "(\<And>b. tq_position (f b) = tq_position b) \<Longrightarrow>
   map (tq_position \<circ> snd) (od_upd k f kvs) = map (tq_position \<circ> snd) kvs"
  by (induction kvs) auto

lemma map_fst_od_set:
  "map fst (od_set k v kvs) = (if k \<in> fst ` set kvs then map fst kvs else map fst kvs @ [k])"
  by (induction kvs) (auto simp: image_iff, force+)

lemma keys_od_set: "fst ` set (od_set k v kvs) = insert k (fst ` set kvs)"
proof -
  have "fst ` set (od_set k v kvs) = set (map fst (od_set k v kvs))" by simp
  also have "\<dots> = insert k (fst ` set kvs)" unfolding map_fst_od_set by auto
  finally show ?thesis .
qed

lemma keys_od_upd: "fst ` set (od_upd k f kvs) = fst ` set kvs"
proof -
  have "fst ` set (od_upd k f kvs) = set (map fst (od_upd k f kvs))" by simp
  also have "\<dots> = fst ` set kvs" unfolding map_fst_od_upd by simp
  finally show ?thesis .
qed

section \<open>The longest name\<close>

lemma max_from_mem: "max_from m xs \<in> set (m # xs)"
  by (induction xs arbitrary: m) (auto split: if_splits)

lemma max_from_init: "length m \<le> length (max_from m xs)"
proof (induction xs arbitrary: m)
  case Nil
  then show ?case by simp
next
  case (Cons x xs)
  have "length m \<le> length (if length m < length x then x else m)" by simp
  also have "\<dots> \<le> length (max_from (if length m < length x then x else m) xs)"
    by (rule Cons.IH)
  finally show ?case by simp
qed

lemma max_from_upper: "y \<in> set (m # xs) \<Longrightarrow> length y \<le> length (max_from m xs)"
proof (induction xs arbitrary: m)
  case Nil
  then show ?case by simp
next
  case (Cons x xs)
  let ?m = "if length m < length x then x else m"
  from Cons.prems consider "y = m" | "y = x" | "y \<in> set xs" by auto
  then show ?case
  proof cases
    case 1
    have "length m \<le> length ?m" by simp
    also have "\<dots> \<le> length (max_from ?m xs)" by (rule max_from_init)
    finally show ?thesis using 1 by simp
  next
    case 2
    have "length x \<le> length ?m" by simp
    also have "\<dots> \<le> length (max_from ?m xs)" by (rule max_from_init)
    finally show ?thesis using 2 by simp
  next
    case 3
    then have "length y \<le> length (max_from ?m xs)" by (intro Cons.IH) simp
    then show ?thesis by simp
  qed
qed

lemma length_max_from: "length (max_from m xs) = Max (length ` set (m # xs))"
proof (rule Max_eqI [symmetric])
  show "finite (length ` set (m # xs))" by simp
  show "\<And>n. n \<in> length ` set (m # xs) \<Longrightarrow> n \<le> length (max_from m xs)"
    using max_from_upper by blast
  show "length (max_from m xs) \<in> length ` set (m # xs)"
    using max_from_mem by blast
qed

section \<open>The builder\<close>

lemma build_loop_distinct:
  "distinct services \<Longrightarrow> set services \<inter> fst ` set bars = {} \<Longrightarrow>
   build_loop ev longest i services bars out =
     (bars @ map (\<lambda>(j, name). (name, fresh_bar ev longest j name))
               (zip [i..<i + length services] services),
      out @ map TqdmNew [i..<i + length services])"
proof (induction services arbitrary: i bars out)
  case Nil
  then show ?case by simp
next
  case (Cons x xs)
  from Cons.prems have fresh: "x \<notin> fst ` set bars" by auto
  let ?bars = "bars @ [(x, fresh_bar ev longest i x)]"
  have step: "od_upd x (set_description (ljust x (int longest)))
          (od_set x (new_tqdm i (ljust ''...'' (text_width_right ev))) bars) = ?bars"
    using fresh by (simp add: od_set_fresh od_upd_last fresh_bar_def)
  from Cons.prems have "distinct xs" "set xs \<inter> fst ` set ?bars = {}" by auto
  from Cons.IH [OF this, of "i + 1" "out @ [TqdmNew i]"]
  have "build_loop ev longest (i + 1) xs ?bars (out @ [TqdmNew i]) =
     (?bars @ map (\<lambda>(j, name). (name, fresh_bar ev longest j name))
               (zip [i + 1..<i + 1 + length xs] xs),
      (out @ [TqdmNew i]) @ map TqdmNew [i + 1..<i + 1 + length xs])" .
  moreover have "[i..<i + length (x # xs)] = i # [i + 1..<i + 1 + length xs]"
    by (simp add: upt_conv_Cons del: upt_Suc)
  ultimately show ?case by (simp add: step del: upt_Suc)
qed

lemma build_progress_bars_distinct:
  assumes "services \<noteq> []" and "distinct services"
  shows "build_progress_bars ev services =
     (Inr (map (\<lambda>(j, name). (name, fresh_bar ev (Max (length ` set services)) j name))
             (zip [0..<length services] services)),
      map TqdmNew [0..<length services])"
proof -
  from assms(1) obtain x xs where sv: "services = x # xs" by (cases services) auto
  have "max_key_len services = Inr (max_from x xs)" by (simp add: sv max_key_len_def)
  moreover have "length (max_from x xs) = Max (length ` set services)"
    unfolding sv by (rule length_max_from)
  moreover have "build_loop ev (Max (length ` set services)) 0 services [] [] =
     ([] @ map (\<lambda>(j, name). (name, fresh_bar ev (Max (length ` set services)) j name))
               (zip [0..<0 + length services] services),
      [] @ map TqdmNew [0..<0 + length services])"
    using assms(2) by (intro build_loop_distinct) simp_all
  ultimately show ?thesis by (simp add: build_progress_bars_def)
qed

lemma build_loop_keys_out:
  "fst ` set (fst (build_loop ev longest i services bars out)) =
     fst ` set bars \<union> set services
   \<and> snd (build_loop ev longest i services bars out) =
       out @ map TqdmNew [i..<i + length services]"
proof (induction services arbitrary: i bars out)
  case Nil
  then show ?case by simp
next
  case (Cons x xs)
  have "[i..<i + length (x # xs)] = i # [i + 1..<i + 1 + length xs]"
    by (simp add: upt_conv_Cons del: upt_Suc)
  with Cons.IH [of "i + 1"] show ?case
    by (simp add: keys_od_upd keys_od_set del: upt_Suc)
qed

lemma board_state_nonempty:
  assumes "services \<noteq> []"
  shows "\<exists>bars. fst (build_progress_bars ev services) = Inr bars
           \<and> fst ` set bars = set services
           \<and> board_state banner ev services =
               \<lparr>progress_bars = bars, errors = [],
                trace = [Echo banner, Echo []] @ map TqdmNew [0..<length services]\<rparr>"
proof -
  from assms obtain x xs where sv: "services = x # xs" by (cases services) auto
  obtain bars out where bl:
    "build_loop ev (length (max_from x xs)) 0 services [] [] = (bars, out)"
    by (cases "build_loop ev (length (max_from x xs)) 0 services [] []")
  from build_loop_keys_out [of ev "length (max_from x xs)" 0 services "[]" "[]"] bl
  have "fst ` set bars = set services" "out = map TqdmNew [0..<length services]"
    by simp_all
  moreover from bl have "build_progress_bars ev services = (Inr bars, out)"
    by (simp add: build_progress_bars_def max_key_len_def sv)
  ultimately show ?thesis by (simp add: board_state_def)
qed

lemma board_state_distinct:
  assumes "services \<noteq> []" and "distinct services"
  shows "board_state banner ev services =
     \<lparr>progress_bars =
        map (\<lambda>(j, name). (name, fresh_bar ev (Max (length ` set services)) j name))
          (zip [0..<length services] services),
      errors = [],
      trace = [Echo banner, Echo []] @ map TqdmNew [0..<length services]\<rparr>"
  by (simp add: board_state_def build_progress_bars_distinct [OF assms])

lemma fresh_bar_position: "tq_position (fresh_bar ev longest i name) = i"
  by (simp add: fresh_bar_def set_description_def new_tqdm_def)

lemma map_fst_zip_bars:
  "length js = length names \<Longrightarrow>
   map fst (map (\<lambda>(j, name). (name, fresh_bar ev longest j name)) (zip js names)) = names
   \<and> map (tq_position \<circ> snd) (map (\<lambda>(j, name). (name, fresh_bar ev longest j name)) (zip js names)) = js"
  by (induction js names rule: list_induct2) (simp_all add: fresh_bar_position)

lemma started_web: "started env80 [''web''] =
  \<lparr>progress_bars = [(''web'', fresh_bar env80 3 0 ''web'')], errors = [],
   trace = [Echo ''Starting services...'', Echo [], TqdmNew 0]\<rparr>"
  by code_simp

lemma started_db: "started env80 [''db''] =
  \<lparr>progress_bars = [(''db'', fresh_bar env80 2 0 ''db'')], errors = [],
   trace = [Echo ''Starting services...'', Echo [], TqdmNew 0]\<rparr>"
  by code_simp

section \<open>The handler and the loop over the events\<close>

lemma progress_step_fields:
  "tq_postfix0 (progress_step tfs steps cs bar) = tfs"
  "tq_total (progress_step tfs steps cs bar) =
     (if steps \<noteq> None \<and> tq_total bar \<noteq> steps then steps else tq_total bar)"
  "tq_n (progress_step tfs steps cs bar) = tq_n bar + (cs - tq_n bar)"
  "tq_position (progress_step tfs steps cs bar) = tq_position bar"
  by (simp_all add: progress_step_def update_def Let_def)

lemma handle_unregistered:
  assumes "map_of (progress_bars s) name = None" and "\<not> (finished \<and> status = Absent)"
  shows "fst (handle_progress_bar ev name status finished s) =
     Some (case (status, finished) of
             (Failure m, True) \<Rightarrow> KeyError name
           | (InProgress t c st, False) \<Rightarrow> KeyError name
           | _ \<Rightarrow> AttributeError)"
  using assms by (cases status; cases finished) (simp_all add: handle_progress_bar_def)

text \<open>
  What every call of the handler keeps: the keys and their order, the positions, and no
  bar is closed.
\<close>

lemma handle_keeps:
  "map fst (progress_bars (snd (handle_progress_bar ev name status finished s))) =
     map fst (progress_bars s)"
  "map (tq_position \<circ> snd) (progress_bars (snd (handle_progress_bar ev name status finished s))) =
     map (tq_position \<circ> snd) (progress_bars s)"
  "filter is_close (trace (snd (handle_progress_bar ev name status finished s))) =
     filter is_close (trace s)"
  by (auto simp: handle_progress_bar_def Let_def map_fst_od_upd map_position_od_upd
      progress_step_fields split: sum.splits option.splits payload.splits)

lemma consume_keeps:
  "map fst (progress_bars (snd (consume ev stream s))) = map fst (progress_bars s)
   \<and> map (tq_position \<circ> snd) (progress_bars (snd (consume ev stream s))) =
       map (tq_position \<circ> snd) (progress_bars s)
   \<and> filter is_close (trace (snd (consume ev stream s))) = filter is_close (trace s)"
proof (induction ev stream s rule: consume.induct)
  case (1 ev s)
  then show ?case by simp
next
  case (2 ev e rest s)
  then show ?case by simp
next
  case (3 ev service_name status finished rest s)
  obtain r s' where h: "handle_progress_bar ev service_name status finished s = (r, s')"
    by (cases "handle_progress_bar ev service_name status finished s")
  from handle_keeps [of ev service_name status finished s] h
  have keep: "map fst (progress_bars s') = map fst (progress_bars s)"
    "map (tq_position \<circ> snd) (progress_bars s') = map (tq_position \<circ> snd) (progress_bars s)"
    "filter is_close (trace s') = filter is_close (trace s)"
    by simp_all
  show ?case
  proof (cases r)
    case None
    with 3 h keep show ?thesis by (simp add: comp_def)
  next
    case (Some e)
    with h keep show ?thesis by (simp add: comp_def)
  qed
qed

lemma consume_append:
  "consume ev (pre @ rest) s =
     (case consume ev pre s of (None, s1) \<Rightarrow> consume ev rest s1 | (Some e, s1) \<Rightarrow> (Some e, s1))"
proof (induction ev pre s rule: consume.induct)
  case (1 ev s)
  then show ?case by simp
next
  case (2 ev e rest s)
  then show ?case by simp
next
  case (3 ev service_name status finished pre s)
  then show ?case
    by (cases "handle_progress_bar ev service_name status finished s")
       (auto split: option.splits)
qed

lemma close_loop_concat:
  "close_loop bars = concat (map (\<lambda>i. [TqdmClose i, Echo []]) (map tq_position bars))"
  by (induction bars) simp_all

lemma close_progress_bars_positions:
  "close_progress_bars bars =
     concat (map (\<lambda>i. [TqdmClose i, Echo []]) (rev (map (tq_position \<circ> snd) bars)))"
  by (simp add: close_progress_bars_def close_loop_concat rev_map)

section \<open>Rendering a bar\<close>

lemma set_slice_to: "set (slice_to t k) \<subseteq> set t"
  by (simp add: slice_to_def set_take_subset)

lemma has_brace_bound_text: "\<not> has_brace t \<Longrightarrow> \<not> has_brace (bound_text t tw)"
  using set_slice_to [of t "tw - 3"]
  by (auto simp: has_brace_def bound_text_def ljust_def)

lemma plain_failure_line: "\<not> has_brace t \<Longrightarrow> plain_format (''{desc}'' @ bound_text t tw)"
  using has_brace_bound_text [of t tw] by (simp add: plain_format_def)

lemma bound_text_wide:
  "3 \<le> tw \<Longrightarrow>
   bound_text t tw =
     (if tw - 3 < int (length t) then take (nat (tw - 3)) t @ ''...''
      else t @ replicate (nat (tw - int (length t))) CHR '' '')"
  by (simp add: bound_text_def slice_to_def ljust_def)

lemma length_bound_text_wide: "3 \<le> tw \<Longrightarrow> int (length (bound_text t tw)) = tw"
  by (simp add: bound_text_wide)

lemma bar_format_progress_step:
  "tq_bar_format (progress_step tfs steps cs bar) = tq_bar_format bar"
  by (simp add: progress_step_def update_def Let_def)

lemma handle_in_progress_state:
  "map_of (progress_bars s) name = Some bar \<Longrightarrow>
   progress_bars (snd (handle_progress_bar ev name (InProgress text cs steps) False s)) =
     od_upd name (progress_step (bound_text text (text_width_right ev)) steps cs) (progress_bars s)
   \<and> errors (snd (handle_progress_bar ev name (InProgress text cs steps) False s)) = errors s
   \<and> fst (handle_progress_bar ev name (InProgress text cs steps) False s) =
       refresh ev (progress_step (bound_text text (text_width_right ev)) steps cs bar)"
  by (simp add: handle_progress_bar_def Let_def split: option.splits)

lemma handle_failure_state:
  "map_of (progress_bars s) name = Some bar \<Longrightarrow>
   progress_bars (snd (handle_progress_bar ev name (Failure message) True s)) =
     od_upd name (\<lambda>b. b\<lparr>tq_bar_format := ''{desc}'' @ bound_text message (text_width_error ev)\<rparr>)
       (progress_bars s)
   \<and> errors (snd (handle_progress_bar ev name (Failure message) True s)) =
       errors s @ [\<lparr>service = name, error = Failure message\<rparr>]
   \<and> fst (handle_progress_bar ev name (Failure message) True s) =
       refresh ev (bar\<lparr>tq_bar_format := ''{desc}'' @ bound_text message (text_width_error ev)\<rparr>)"
  by (simp add: handle_progress_bar_def Let_def split: option.splits)

text \<open>
  The failure line is a template: when the bounded message holds braces of its own, the
  handler raises what \<open>str.format\<close> raises on it, after the record is appended.
\<close>

lemma failure_line_not_rendered:
  assumes "map_of (progress_bars s) name = Some bar"
    and "\<not> plain_format (''{desc}'' @ bound_text message (text_width_error ev))"
  shows "fst (handle_progress_bar ev name (Failure message) True s) =
     format_error ev (''{desc}'' @ bound_text message (text_width_error ev))"
  using handle_failure_state [OF assms(1), of ev message] assms(2) by (simp add: refresh_def)

section \<open>In-progress events\<close>

text \<open>
  C2 (as amended). For every event with \<open>finished = False\<close> that carries an in-progress
  payload \<open>(text, current_step, steps)\<close> for a service of the board: the bar's footer
  \<open>postfix[0]\<close> becomes the value of the bounding expression on the text and
  \<open>text_width_right()\<close>, which for a width of at least 3 is the first \<open>width - 3\<close>
  characters and the three dots when the text is longer than \<open>width - 3\<close>, the text
  followed by spaces otherwise, of exactly \<open>width\<close> characters; the bar's total becomes
  \<open>steps\<close> exactly when \<open>steps\<close> is present and differs from the bar's total, and is kept
  otherwise; the counter \<open>n\<close> is advanced by \<open>current_step - n\<close>, so that it equals the
  payload's \<open>current_step\<close> afterwards.
\<close>

theorem in_progress_event:
  assumes registered: "map_of (progress_bars s) name = Some bar"
  shows "let r = handle_progress_bar ev name (InProgress text cs steps) False s;
             bar' = map_of (progress_bars (snd r)) name;
             tw = text_width_right ev
         in map_option tq_postfix0 bar' = Some (bound_text text tw)
            \<and> (3 \<le> tw \<longrightarrow>
                  map_option tq_postfix0 bar' =
                    Some (if tw - 3 < int (length text) then take (nat (tw - 3)) text @ ''...''
                          else text @ replicate (nat (tw - int (length text))) CHR '' '')
                  \<and> map_option (\<lambda>b. int (length (tq_postfix0 b))) bar' = Some tw)
            \<and> map_option tq_total bar' =
                Some (if steps \<noteq> None \<and> steps \<noteq> tq_total bar then steps else tq_total bar)
            \<and> map_option tq_n bar' = Some (tq_n bar + (cs - tq_n bar))
            \<and> map_option tq_n bar' = Some cs"
proof -
  let ?tw = "text_width_right ev"
  let ?step = "progress_step (bound_text text ?tw) steps cs"
  let ?r = "handle_progress_bar ev name (InProgress text cs steps) False s"
  let ?bar' = "map_of (progress_bars (snd ?r)) name"
  note st = handle_in_progress_state [OF registered, of ev "text" cs steps]
  have after: "?bar' = Some (?step bar)"
    using registered st by (simp add: map_of_od_upd)
  have footer: "map_option tq_postfix0 ?bar' = Some (bound_text text ?tw)"
    by (simp add: after progress_step_fields)
  have cut: "3 \<le> ?tw \<Longrightarrow> map_option tq_postfix0 ?bar' =
      Some (if ?tw - 3 < int (length text) then take (nat (?tw - 3)) text @ ''...''
            else text @ replicate (nat (?tw - int (length text))) CHR '' '')"
    by (simp add: footer bound_text_wide)
  have exact: "3 \<le> ?tw \<Longrightarrow> map_option (\<lambda>b. int (length (tq_postfix0 b))) ?bar' = Some ?tw"
    by (simp add: after progress_step_fields length_bound_text_wide)
  have total: "map_option tq_total ?bar' =
      Some (if steps \<noteq> None \<and> steps \<noteq> tq_total bar then steps else tq_total bar)"
    by (auto simp: after progress_step_fields)
  have delta: "map_option tq_n ?bar' = Some (tq_n bar + (cs - tq_n bar))"
    by (simp add: after progress_step_fields)
  have reached: "map_option tq_n ?bar' = Some cs"
    by (simp add: after progress_step_fields)
  show ?thesis
    unfolding Let_def using footer cut exact total delta reached by blast
qed

text \<open>
  The last event of the specification's example for \<open>web\<close>, on a terminal of 80 columns:
  total 3, step 3, footer of 32 characters.
\<close>

theorem in_progress_event_witness:
  "map_of (progress_bars (started env80 [''web''])) ''web'' = Some (fresh_bar env80 3 0 ''web'')
   \<and> 3 \<le> text_width_right env80
   \<and> map_of (progress_bars (snd (handle_progress_bar env80 ''web''
         (InProgress ''started'' 3 (Some 3)) False (started env80 [''web'']))))
       ''web'' =
       Some \<lparr>tq_total = Some 3, tq_position = 0, tq_n = 3,
             tq_postfix0 = ''started                         '', tq_desc = ''web'',
             tq_bar_format = ''{desc}{n_fmt}/{total_fmt}|{bar}| {postfix[0]}''\<rparr>
   \<and> map_option (\<lambda>b. int (length (tq_postfix0 b)))
        (map_of (progress_bars (snd (handle_progress_bar env80 ''web''
           (InProgress ''started'' 3 (Some 3)) False (started env80 [''web'']))))
         ''web'') = Some 32"
proof -
  let ?r = "handle_progress_bar env80 ''web'' (InProgress ''started'' 3 (Some 3)) False
              (started env80 [''web''])"
  have h: "map_of (progress_bars (started env80 [''web''])) ''web'' =
      Some (fresh_bar env80 3 0 ''web'')"
    by (simp add: started_web)
  have w: "3 \<le> text_width_right env80" and tw: "text_width_right env80 = 32"
    by (simp_all add: env80_def)
  have v: "map_of (progress_bars (snd ?r)) ''web'' =
       Some \<lparr>tq_total = Some 3, tq_position = 0, tq_n = 3,
             tq_postfix0 = ''started                         '', tq_desc = ''web'',
             tq_bar_format = ''{desc}{n_fmt}/{total_fmt}|{bar}| {postfix[0]}''\<rparr>"
    by code_simp
  note r = in_progress_event [OF h, of env80 "''started''" 3 "Some 3", unfolded Let_def]
  from r w
  have "map_option (\<lambda>b. int (length (tq_postfix0 b))) (map_of (progress_bars (snd ?r)) ''web'') =
       Some (text_width_right env80)"
    by blast
  with h w v show ?thesis unfolding tw by blast
qed

text \<open>
  C2 as stated, for every width, fails below 3: on a terminal of 3 columns the width of
  the footer is 1 and the footer set for the text \<open>starting\<close> has 9 characters.
\<close>

theorem footer_narrow_counterexample:
  "text_width_right env3 = 1
   \<and> map_option tq_postfix0
        (map_of (progress_bars (snd (handle_progress_bar env3 ''web''
           (InProgress ''starting'' 0 (Some 3)) False (started env3 [''web'']))))
         ''web'') = Some ''starti...''
   \<and> int (length ''starti...'') \<noteq> text_width_right env3"
  by code_simp

section \<open>Failure events\<close>

text \<open>
  C4 (as amended). For every event with \<open>finished = True\<close> and a failure payload for a
  service of the board, the handler appends exactly one record to \<open>errors\<close>, made of the
  service name and the failure with its message, and sets the bar's line to \<open>"{desc}"\<close>
  followed by the value of the bounding expression on the message and
  \<open>text_width_error()\<close>, not \<open>text_width_right()\<close>; for a width of at least 3 that is the
  first \<open>width - 3\<close> characters and the three dots, or the message followed by spaces, of
  exactly \<open>width\<close> characters. When the message holds no brace, the handler raises
  nothing.
\<close>

theorem failure_event:
  assumes registered: "map_of (progress_bars s) name = Some bar"
  shows "let r = handle_progress_bar ev name (Failure message) True s;
             line = map_option tq_bar_format (map_of (progress_bars (snd r)) name);
             tw = text_width_error ev
         in errors (snd r) = errors s @ [\<lparr>service = name, error = Failure message\<rparr>]
            \<and> line = Some (''{desc}'' @ bound_text message tw)
            \<and> (3 \<le> tw \<longrightarrow>
                  line =
                    Some (''{desc}'' @
                          (if tw - 3 < int (length message)
                           then take (nat (tw - 3)) message @ ''...''
                           else message @ replicate (nat (tw - int (length message))) CHR '' ''))
                  \<and> int (length (bound_text message tw)) = tw)
            \<and> (\<not> has_brace message \<longrightarrow> fst r = None)"
proof -
  let ?tw = "text_width_error ev"
  let ?r = "handle_progress_bar ev name (Failure message) True s"
  let ?line = "map_option tq_bar_format (map_of (progress_bars (snd ?r)) name)"
  note st = handle_failure_state [OF registered, of ev message]
  have appended: "errors (snd ?r) = errors s @ [\<lparr>service = name, error = Failure message\<rparr>]"
    using st by blast
  have line: "?line = Some (''{desc}'' @ bound_text message ?tw)"
    using registered st by (simp add: map_of_od_upd)
  have cut: "3 \<le> ?tw \<Longrightarrow> ?line =
      Some (''{desc}'' @
            (if ?tw - 3 < int (length message) then take (nat (?tw - 3)) message @ ''...''
             else message @ replicate (nat (?tw - int (length message))) CHR '' ''))"
    using bound_text_wide [of ?tw message] by (simp only: line)
  have exact: "3 \<le> ?tw \<Longrightarrow> int (length (bound_text message ?tw)) = ?tw"
    by (rule length_bound_text_wide)
  have quiet: "\<not> has_brace message \<Longrightarrow> fst ?r = None"
    using st plain_failure_line [of message ?tw] by (simp add: refresh_def)
  show ?thesis
    unfolding Let_def using appended line cut exact quiet by blast
qed

text \<open>
  The example of the specification: after the single event for \<open>db\<close> the list holds
  exactly one record. On 80 columns the line is padded to 56 characters, where the width
  of the footer would give 32.
\<close>

theorem failure_event_witness:
  "map_of (progress_bars (started env80 [''db''])) ''db'' = Some (fresh_bar env80 2 0 ''db'')
   \<and> 3 \<le> text_width_error env80
   \<and> \<not> has_brace ''connection refused''
   \<and> fst (handle_progress_bar env80 ''db'' (Failure ''connection refused'') True
            (started env80 [''db''])) = None
   \<and> errors (snd (handle_progress_bar env80 ''db'' (Failure ''connection refused'') True
                  (started env80 [''db'']))) =
       [\<lparr>service = ''db'', error = Failure ''connection refused''\<rparr>]
   \<and> map_option tq_bar_format
        (map_of (progress_bars (snd (handle_progress_bar env80 ''db''
           (Failure ''connection refused'') True (started env80 [''db''])))) ''db'') =
       Some (''{desc}connection refused'' @ replicate 38 CHR '' '')
   \<and> int (length (bound_text ''connection refused'' (text_width_error env80))) = 56
   \<and> int (length (bound_text ''connection refused'' (text_width_right env80))) = 32"
proof -
  let ?r = "handle_progress_bar env80 ''db'' (Failure ''connection refused'') True
              (started env80 [''db''])"
  have h: "map_of (progress_bars (started env80 [''db''])) ''db'' =
      Some (fresh_bar env80 2 0 ''db'')"
    by (simp add: started_db)
  have w: "3 \<le> text_width_error env80" and tw: "text_width_error env80 = 56"
    by (simp_all add: env80_def)
  have nb: "\<not> has_brace ''connection refused''" by code_simp
  have e: "errors (started env80 [''db'']) = []" by (simp add: started_db)
  have b: "bound_text ''connection refused'' 56 = ''connection refused'' @ replicate 38 CHR '' ''"
     by (simp add: bound_text_def ljust_def)
  have b': "int (length (bound_text ''connection refused'' (text_width_right env80))) = 32"
     by (simp add: bound_text_def ljust_def env80_def env45_def)
  note r = failure_event [OF h, of env80 "''connection refused''", unfolded Let_def tw]
  from r nb have q: "fst ?r = None" by blast
  from r have a: "errors (snd ?r) = [\<lparr>service = ''db'', error = Failure ''connection refused''\<rparr>]"
    by (simp add: e)
  from r have l: "map_option tq_bar_format (map_of (progress_bars (snd ?r)) ''db'') =
       Some (''{desc}connection refused'' @ replicate 38 CHR '' '')"
    by (simp add: b)
  from r have x: "int (length (bound_text ''connection refused'' 56)) = 56" by simp
  show ?thesis unfolding tw using h nb q a l x b' by simp
qed

text \<open>
  C4 as stated, for every width, fails below 3: on a terminal of 3 columns the width for
  errors is 2 and the line set for \<open>connection refused\<close> has 20 characters after
  \<open>"{desc}"\<close>.
\<close>

theorem failure_line_narrow_counterexample:
  "text_width_error env3 = 2
   \<and> map_option tq_bar_format
        (map_of (progress_bars (snd (handle_progress_bar env3 ''db''
           (Failure ''connection refused'') True (started env3 [''db'']))))
         ''db'') = Some (''{desc}'' @ ''connection refuse...'')
   \<and> int (length ''connection refuse...'') \<noteq> text_width_error env3"
  by code_simp

section \<open>The counter of a bar\<close>

text \<open>
  C8 (as amended). For every event for a service of the board, the handler applies
  \<open>current_step\<close> as a delta to the counter of the bar: an in-progress event moves the
  counter by \<open>current_step - n\<close>, every other event leaves it as it is. The counter after
  the event is at least its value before exactly when the event is not an in-progress
  event whose \<open>current_step\<close> is below the counter.
\<close>

theorem current_step_by_delta:
  assumes "map_of (progress_bars s) name = Some bar"
  shows "let after = map_option tq_n
                       (map_of (progress_bars (snd (handle_progress_bar ev name status finished s)))
                          name)
         in after = Some (case status of
                            InProgress t c st \<Rightarrow>
                              if finished then tq_n bar else tq_n bar + (c - tq_n bar)
                          | _ \<Rightarrow> tq_n bar)
            \<and> ((case after of Some m \<Rightarrow> tq_n bar \<le> m | None \<Rightarrow> False) \<longleftrightarrow>
                 (case status of InProgress t c st \<Rightarrow> finished \<or> tq_n bar \<le> c | _ \<Rightarrow> True))"
  using assms
  by (cases status; cases finished)
     (simp_all add: handle_progress_bar_def Let_def map_of_od_upd progress_step_fields
        split: option.splits)

theorem current_step_by_delta_witness:
  "map_of (progress_bars (started env80 [''web''])) ''web'' = Some (fresh_bar env80 3 0 ''web'')
   \<and> tq_n (fresh_bar env80 3 0 ''web'') = 0
   \<and> map_option tq_n (map_of (progress_bars web_at_3) ''web'') = Some (0 + (3 - 0))"
proof -
  have h: "map_of (progress_bars (started env80 [''web''])) ''web'' =
      Some (fresh_bar env80 3 0 ''web'')"
    by code_simp
  have n0: "tq_n (fresh_bar env80 3 0 ''web'') = 0" by code_simp
  note r = current_step_by_delta [OF h, of env80 "InProgress ''started'' 3 (Some 3)" False,
      unfolded Let_def]
  from r have "map_option tq_n (map_of (progress_bars web_at_3) ''web'') = Some (0 + (3 - 0))"
    by (simp add: web_at_3_def n0)
  with h n0 show ?thesis by blast
qed

text \<open>
  C8 as stated fails: the handler does not compare the payload with the counter, so an
  event that reports step 1 after step 3 moves the counter back from 3 to 1.
\<close>

theorem current_step_regress_counterexample:
  "map_option tq_n (map_of (progress_bars web_at_3) ''web'') = Some 3
   \<and> fst (handle_progress_bar env80 ''web'' (InProgress ''restarting'' 1 (Some 3)) False web_at_3)
       = None
   \<and> map_option tq_n
        (map_of (progress_bars (snd (handle_progress_bar env80 ''web''
           (InProgress ''restarting'' 1 (Some 3)) False web_at_3))) ''web'') = Some 1"
  by code_simp

section \<open>Events after the finished event\<close>

text \<open>
  C9 (as amended). The handler keeps no terminal state and treats an event after the
  finished event of a service as any other event. A finished event without payload
  changes nothing and raises nothing, whatever came before. For a service of the board, a
  failure event appends another record, and raises nothing when its message holds no
  brace; an in-progress event sets the footer and moves the counter to its
  \<open>current_step\<close>, and raises nothing when the bar has a template that renders.
\<close>

theorem further_events_processed:
  "handle_progress_bar ev name Absent True s = (None, s)
   \<and> (map_of (progress_bars s) name = Some bar \<longrightarrow>
        errors (snd (handle_progress_bar ev name (Failure m) True s)) =
          errors s @ [\<lparr>service = name, error = Failure m\<rparr>]
        \<and> (\<not> has_brace m \<longrightarrow> fst (handle_progress_bar ev name (Failure m) True s) = None)
        \<and> map_option tq_n
            (map_of (progress_bars (snd (handle_progress_bar ev name (InProgress t c st) False s)))
               name) = Some c
        \<and> map_option tq_postfix0
            (map_of (progress_bars (snd (handle_progress_bar ev name (InProgress t c st) False s)))
               name) = Some (bound_text t (text_width_right ev))
        \<and> (plain_format (tq_bar_format bar) \<longrightarrow>
             fst (handle_progress_bar ev name (InProgress t c st) False s) = None))"
proof -
  have "handle_progress_bar ev name Absent True s = (None, s)"
    by (simp add: handle_progress_bar_def)
  moreover {
    assume registered: "map_of (progress_bars s) name = Some bar"
    note f = handle_failure_state [OF registered, of ev m]
    note p = handle_in_progress_state [OF registered, of ev t c st]
    have "\<not> has_brace m \<Longrightarrow> fst (handle_progress_bar ev name (Failure m) True s) = None"
      using f plain_failure_line [of m "text_width_error ev"] by (simp add: refresh_def)
    moreover have "plain_format (tq_bar_format bar) \<Longrightarrow>
        fst (handle_progress_bar ev name (InProgress t c st) False s) = None"
      using p by (simp add: refresh_def bar_format_progress_step)
    moreover have "map_of (progress_bars (snd (handle_progress_bar ev name (InProgress t c st) False s)))
               name = Some (progress_step (bound_text t (text_width_right ev)) st c bar)"
      using registered p by (simp add: map_of_od_upd)
    ultimately have "errors (snd (handle_progress_bar ev name (Failure m) True s)) =
          errors s @ [\<lparr>service = name, error = Failure m\<rparr>]
        \<and> (\<not> has_brace m \<longrightarrow> fst (handle_progress_bar ev name (Failure m) True s) = None)
        \<and> map_option tq_n
            (map_of (progress_bars (snd (handle_progress_bar ev name (InProgress t c st) False s)))
               name) = Some c
        \<and> map_option tq_postfix0
            (map_of (progress_bars (snd (handle_progress_bar ev name (InProgress t c st) False s)))
               name) = Some (bound_text t (text_width_right ev))
        \<and> (plain_format (tq_bar_format bar) \<longrightarrow>
             fst (handle_progress_bar ev name (InProgress t c st) False s) = None)"
      using f by (simp add: progress_step_fields)
  }
  ultimately show ?thesis by blast
qed

theorem further_events_processed_witness:
  "handle_progress_bar env80 ''db'' Absent True db_failed = (None, db_failed)
   \<and> map_of (progress_bars db_failed) ''db'' = Some db_failed_bar
   \<and> \<not> has_brace ''again'' \<and> plain_format (tq_bar_format db_failed_bar)
   \<and> errors (snd (handle_progress_bar env80 ''db'' (Failure ''again'') True db_failed)) =
       errors db_failed @ [\<lparr>service = ''db'', error = Failure ''again''\<rparr>]
   \<and> fst (handle_progress_bar env80 ''db'' (Failure ''again'') True db_failed) = None
   \<and> map_option tq_n
        (map_of (progress_bars (snd (handle_progress_bar env80 ''db''
           (InProgress ''retry'' 2 None) False db_failed))) ''db'') = Some 2
   \<and> fst (handle_progress_bar env80 ''db'' (InProgress ''retry'' 2 None) False db_failed) = None"
proof -
  have h: "map_of (progress_bars db_failed) ''db'' = Some db_failed_bar" by code_simp
  have nb: "\<not> has_brace ''again''" by code_simp
  have p: "plain_format (tq_bar_format db_failed_bar)" by code_simp
  note r = further_events_processed [of env80 "''db''" db_failed db_failed_bar "''again''"
      "''retry''" 2 None]
  from r h nb p show ?thesis by blast
qed

text \<open>
  C9 as stated fails: after the failure event of \<open>db\<close>, a second failure event appends
  a second record, and an in-progress event moves the counter of the bar.
\<close>

theorem terminal_not_tracked_counterexample:
  "errors db_failed = [\<lparr>service = ''db'', error = Failure ''connection refused''\<rparr>]
   \<and> errors (snd (handle_progress_bar env80 ''db'' (Failure ''again'') True db_failed)) =
       [\<lparr>service = ''db'', error = Failure ''connection refused''\<rparr>,
        \<lparr>service = ''db'', error = Failure ''again''\<rparr>]
   \<and> map_option tq_n (map_of (progress_bars db_failed) ''db'') = Some 0
   \<and> map_option tq_n
        (map_of (progress_bars (snd (handle_progress_bar env80 ''db''
           (InProgress ''retry'' 2 None) False db_failed))) ''db'') = Some 2"
  by code_simp

section \<open>An empty sequence of services\<close>

text \<open>
  C3 (as amended). Building the board from an empty sequence fails: the builder raises
  the \<open>ValueError\<close> of \<open>max\<close> on an empty sequence, which is the computation of the longest
  name itself; no bar is created and the builder prints nothing. The operation has printed
  its first two lines by then, and the exception leaves it as it is, not wrapped.
\<close>

theorem build_empty_fails:
  "build_progress_bars ev [] = (Inl ValueError, [])
   \<and> max_key_len [] = Inl ValueError
   \<and> run_lifecycle banner msg ev [] stream show_status status_report =
       (Some ValueError, \<lparr>progress_bars = [], errors = [], trace = [Echo banner, Echo []]\<rparr>)"
  by (simp add: build_progress_bars_def max_key_len_def run_lifecycle_def board_state_def)

theorem build_empty_fails_witness:
  "build_progress_bars env45 [] = (Inl ValueError, [])
   \<and> start_project env45 [] [] True [] =
       (Some ValueError,
        \<lparr>progress_bars = [], errors = [], trace = [Echo ''Starting services...'', Echo []]\<rparr>)"
  using build_empty_fails [of env45 "''Starting services...''" "''Error starting the services''"
      "[]" True "[]"]
  unfolding start_project_def by blast

text \<open>
  C3 as stated fails: the exception is the \<open>ValueError\<close> that the computation of the
  longest name raises; there is no check of emptiness before it.
\<close>

theorem build_empty_counterexample:
  "fst (build_progress_bars env45 []) = Inl ValueError \<and> max_key_len [] = Inl ValueError"
  by code_simp

section \<open>The initial bars\<close>

text \<open>
  C7 (as amended). For a non-empty sequence of pairwise distinct names, the builder
  returns one bar per name, in the order of the sequence; the bar of the name at index
  \<open>i\<close> has position \<open>i\<close>, total 1, counter 0, as description the name followed by
  spaces up to the length of the longest name, and as footer the three dots followed by
  spaces up to \<open>text_width_right()\<close>.
\<close>

theorem initial_widgets:
  assumes "services \<noteq> []" and "distinct services" and "i < length services"
  shows "fst (build_progress_bars ev services) = Inr (progress_bars (board_state banner ev services))
    \<and> length (progress_bars (board_state banner ev services)) = length services
    \<and> progress_bars (board_state banner ev services) ! i =
        (services ! i,
         \<lparr>tq_total = Some 1, tq_position = i, tq_n = 0,
          tq_postfix0 = ''...'' @ replicate (nat (text_width_right ev - 3)) CHR '' '',
          tq_desc = services ! i
                    @ replicate (Max (length ` set services) - length (services ! i)) CHR '' '',
          tq_bar_format = ''{desc}{n_fmt}/{total_fmt}|{bar}| {postfix[0]}''\<rparr>)"
  using assms(3)
  by (simp add: board_state_distinct [OF assms(1,2)] build_progress_bars_distinct [OF assms(1,2)]
      fresh_bar_def set_description_def new_tqdm_def ljust_def nat_diff_distrib')

theorem initial_widgets_witness:
  "[''a'', ''bb''] \<noteq> [] \<and> distinct [''a'', ''bb''] \<and> (0::nat) < length [''a'', ''bb'']
   \<and> fst (build_progress_bars env45 [''a'', ''bb'']) =
       Inr (progress_bars (started env45 [''a'', ''bb'']))
   \<and> length (progress_bars (started env45 [''a'', ''bb''])) = 2
   \<and> progress_bars (started env45 [''a'', ''bb'']) ! 0 =
       (''a'',
        \<lparr>tq_total = Some 1, tq_position = 0, tq_n = 0,
         tq_postfix0 = ''...'' @ replicate 42 CHR '' '', tq_desc = ''a '',
         tq_bar_format = ''{desc}{n_fmt}/{total_fmt}|{bar}| {postfix[0]}''\<rparr>)"
proof -
  have h1: "[''a'', ''bb''] \<noteq> []" and h2: "distinct [''a'', ''bb'']"
    and h3: "(0::nat) < length [''a'', ''bb'']" by simp_all
  have w: "text_width_right env45 = 45" by (simp add: env45_def)
  from initial_widgets [OF h1 h2 h3, of env45 "''Starting services...''"]
  show ?thesis by (simp add: started_def w)
qed

text \<open>
  C7 as stated fails: the total of a new bar is the number 1, not unknown; the spaces
  follow the name; and when a name occurs twice, the bar kept under it has the position of
  the later occurrence.
\<close>

theorem initial_total_counterexample:
  "map_option tq_total (map_of (progress_bars (started env45 [''a'', ''bb''])) ''a'') = Some (Some 1)
   \<and> map_option tq_desc (map_of (progress_bars (started env45 [''a'', ''bb''])) ''a'') = Some ''a ''
   \<and> map_option tq_position (map_of (progress_bars (started env45 [''a'', ''b'', ''a''])) ''a'') = Some 2"
  by code_simp

section \<open>Order of creation and of teardown\<close>

text \<open>
  C6 (as amended). For a non-empty sequence of pairwise distinct names, the bars are
  created in the order of the sequence, the bar of the name at index \<open>i\<close> at position
  \<open>i\<close>; when the stream ends without an exception, the operation then closes every bar
  exactly once, from the last position down to 0, and prints an empty line after each
  close; no bar is closed before.
\<close>

theorem board_order_and_teardown:
  assumes "services \<noteq> []" and "distinct services"
    and "fst (consume ev stream (board_state banner ev services)) = None"
  shows "map fst (progress_bars (board_state banner ev services)) = services
    \<and> map (tq_position \<circ> snd) (progress_bars (board_state banner ev services)) =
        [0..<length services]
    \<and> trace (board_state banner ev services) =
        [Echo banner, Echo []] @ map TqdmNew [0..<length services]
    \<and> fst (run_lifecycle banner msg ev services stream show_status status_report) = None
    \<and> trace (snd (run_lifecycle banner msg ev services stream show_status status_report)) =
        trace (snd (consume ev stream (board_state banner ev services)))
        @ concat (map (\<lambda>i. [TqdmClose i, Echo []]) (rev [0..<length services]))
        @ display_errors ev (errors (snd (consume ev stream (board_state banner ev services))))
        @ (if show_status then status_report else [])
    \<and> filter is_close (trace (snd (consume ev stream (board_state banner ev services)))) = []"
proof -
  let ?s0 = "board_state banner ev services"
  let ?s1 = "snd (consume ev stream ?s0)"
  have keys: "map fst (progress_bars ?s0) = services"
    and pos: "map (tq_position \<circ> snd) (progress_bars ?s0) = [0..<length services]"
    and tr: "trace ?s0 = [Echo banner, Echo []] @ map TqdmNew [0..<length services]"
    using map_fst_zip_bars [of "[0..<length services]" services]
    by (simp_all add: board_state_distinct [OF assms(1,2)])
  from consume_keeps [of ev stream ?s0] pos
  have pos1: "map (tq_position \<circ> snd) (progress_bars ?s1) = [0..<length services]" by simp
  have "filter is_close (trace ?s0) = []" by (simp add: tr filter_empty_conv)
  with consume_keeps [of ev stream ?s0]
  have nc: "filter is_close (trace ?s1) = []" by simp
  obtain bars where b: "fst (build_progress_bars ev services) = Inr bars"
    using board_state_nonempty [OF assms(1)] by blast
  obtain s1' where c: "consume ev stream ?s0 = (None, s1')"
    using assms(3) by (cases "consume ev stream ?s0") auto
  have run: "run_lifecycle banner msg ev services stream show_status status_report =
     (None, ?s1\<lparr>trace := trace ?s1 @ close_progress_bars (progress_bars ?s1)
                   @ display_errors ev (errors ?s1)
                   @ (if show_status then status_report else [])\<rparr>)"
    by (simp add: run_lifecycle_def b try_stream_def c)
  show ?thesis
    using keys pos tr nc
    by (simp add: run close_progress_bars_positions pos1)
qed

theorem board_order_and_teardown_witness:
  "[''web'', ''db''] \<noteq> [] \<and> distinct [''web'', ''db'']
   \<and> fst (consume env45 db_fails (started env45 [''web'', ''db''])) = None
   \<and> map fst (progress_bars (started env45 [''web'', ''db''])) = [''web'', ''db'']
   \<and> map (tq_position \<circ> snd) (progress_bars (started env45 [''web'', ''db''])) = [0, 1]
   \<and> trace (snd (start_project env45 [''web'', ''db''] db_fails False [])) =
       [Echo ''Starting services...'', Echo [], TqdmNew 0, TqdmNew 1, TqdmRefresh 1,
        TqdmClose 1, Echo [], TqdmClose 0, Echo [],
        Echo ''There were errors while starting some of the services: '',
        Echo ''    db:'', Echo ''    connection refused'', Echo []]"
proof -
  let ?s0 = "board_state ''Starting services...'' env45 [''web'', ''db'']"
  have h1: "[''web'', ''db''] \<noteq> []" and h2: "distinct [''web'', ''db'']" by simp_all
  have h3: "fst (consume env45 db_fails ?s0) = None"
    by code_simp
  have t: "trace (snd (consume env45 db_fails ?s0)) =
       [Echo ''Starting services...'', Echo [], TqdmNew 0, TqdmNew 1, TqdmRefresh 1]"
    by code_simp
  have e: "display_errors env45 (errors (snd (consume env45 db_fails ?s0))) =
       [Echo ''There were errors while starting some of the services: '',
        Echo ''    db:'', Echo ''    connection refused'', Echo []]"
    by code_simp
  have u: "[0..<length [''web'', ''db'']] = [0, 1]" by (simp add: upt_rec)
  note r = board_order_and_teardown [OF h1 h2 h3, of "''Error starting the services''" False "[]"]
  from r have "trace (snd (start_project env45 [''web'', ''db''] db_fails False [])) =
       [Echo ''Starting services...'', Echo [], TqdmNew 0, TqdmNew 1, TqdmRefresh 1]
       @ concat (map (\<lambda>i. [TqdmClose i, Echo []]) (rev [0, 1]))
       @ [Echo ''There were errors while starting some of the services: '',
          Echo ''    db:'', Echo ''    connection refused'', Echo []] @ []"
    unfolding start_project_def t e u by simp
  then have "trace (snd (start_project env45 [''web'', ''db''] db_fails False [])) =
       [Echo ''Starting services...'', Echo [], TqdmNew 0, TqdmNew 1, TqdmRefresh 1,
        TqdmClose 1, Echo [], TqdmClose 0, Echo [],
        Echo ''There were errors while starting some of the services: '',
        Echo ''    db:'', Echo ''    connection refused'', Echo []]"
    by simp
  moreover from r have "map fst (progress_bars (started env45 [''web'', ''db''])) = [''web'', ''db'']"
    and "map (tq_position \<circ> snd) (progress_bars (started env45 [''web'', ''db''])) = [0, 1]"
    unfolding started_def u by blast+
  ultimately show ?thesis using h1 h2 h3 unfolding started_def by blast
qed

text \<open>
  C6 as stated, for every non-empty sequence, fails when a name occurs twice: three
  bars are created for \<open>a, b, a\<close>, the board keeps the bars at positions 2 and 1 in that
  order, and teardown closes these two only; the bar at position 0 is never closed.
\<close>

theorem duplicate_names_counterexample:
  "map fst (progress_bars (started env45 [''a'', ''b'', ''a''])) = [''a'', ''b'']
   \<and> map (tq_position \<circ> snd) (progress_bars (started env45 [''a'', ''b'', ''a''])) = [2, 1]
   \<and> filter is_new (trace (snd (start_project env45 [''a'', ''b'', ''a''] [] False []))) =
       [TqdmNew 0, TqdmNew 1, TqdmNew 2]
   \<and> filter is_close (trace (snd (start_project env45 [''a'', ''b'', ''a''] [] False []))) =
       [TqdmClose 1, TqdmClose 2]"
  by code_simp

section \<open>A failing stream\<close>

text \<open>
  C5 (as amended). If the stream raises after a prefix of events that the handler
  processed, the operation ends there with an exception and closes no bar: an instance of
  \<open>Exception\<close> is wrapped as the cause of a \<open>RiptideCliError\<close> with the message of the
  operation; an exception that is not an instance of \<open>Exception\<close> propagates as it is.
  The state is the one left by the events before the raise.
\<close>

theorem stream_failure_propagates:
  assumes "services \<noteq> []"
    and "fst (consume ev pre (board_state banner ev services)) = None"
  shows "fst (run_lifecycle banner msg ev services (pre @ Raise e # rest) show_status status_report) =
           Some (if is_Exception e then RiptideCliError msg e else e)
    \<and> snd (run_lifecycle banner msg ev services (pre @ Raise e # rest) show_status status_report) =
        snd (consume ev pre (board_state banner ev services))
    \<and> filter is_close
        (trace (snd (run_lifecycle banner msg ev services (pre @ Raise e # rest)
                       show_status status_report))) = []"
proof -
  let ?s0 = "board_state banner ev services"
  obtain bars where b: "fst (build_progress_bars ev services) = Inr bars"
    and tr: "trace ?s0 = [Echo banner, Echo []] @ map TqdmNew [0..<length services]"
    using board_state_nonempty [OF assms(1), of ev banner] by auto
  obtain s1 where c: "consume ev pre ?s0 = (None, s1)"
    using assms(2) by (cases "consume ev pre ?s0") auto
  have "consume ev (pre @ Raise e # rest) ?s0 = (Some e, s1)"
    by (simp add: consume_append c)
  then have run: "run_lifecycle banner msg ev services (pre @ Raise e # rest) show_status status_report =
      (Some (if is_Exception e then RiptideCliError msg e else e), s1)"
    by (simp add: run_lifecycle_def b try_stream_def)
  have "filter is_close (trace ?s0) = []" by (simp add: tr filter_empty_conv)
  with consume_keeps [of ev pre ?s0] c have "filter is_close (trace s1) = []" by simp
  with run c show ?thesis by simp
qed

text \<open>
  The example of the specification: the stream raises after events for two of three
  services.
\<close>

theorem stream_failure_propagates_witness:
  "[''web'', ''db'', ''cache''] \<noteq> []
   \<and> fst (consume env45 two_of_three (started env45 [''web'', ''db'', ''cache''])) = None
   \<and> fst (start_project env45 [''web'', ''db'', ''cache'']
            (two_of_three @ Raise (EngineError ''connection lost'') # []) True []) =
       Some (if is_Exception (EngineError ''connection lost'')
             then RiptideCliError ''Error starting the services'' (EngineError ''connection lost'')
             else EngineError ''connection lost'')
   \<and> is_Exception (EngineError ''connection lost'')
   \<and> filter is_close (trace (snd (start_project env45 [''web'', ''db'', ''cache'']
            (two_of_three @ Raise (EngineError ''connection lost'') # []) True []))) = []"
proof -
  have h1: "[''web'', ''db'', ''cache''] \<noteq> []" by simp
  have h2: "fst (consume env45 two_of_three
                  (board_state ''Starting services...'' env45 [''web'', ''db'', ''cache''])) = None"
    by code_simp
  have h3: "is_Exception (EngineError ''connection lost'')" by simp
  note r = stream_failure_propagates [OF h1 h2, of "''Error starting the services''"
      "EngineError ''connection lost''" "[]" True "[]"]
  show ?thesis unfolding start_project_def started_def using h1 h2 h3 r by blast
qed

text \<open>
  C5 as stated, for whatever the stream raises, fails for an exception outside
  \<open>Exception\<close>: it is not wrapped.
\<close>

theorem stream_interrupt_counterexample:
  "fst (start_project env45 [''web''] [Raise KeyboardInterrupt] True []) = Some KeyboardInterrupt
   \<and> fst (start_project env45 [''web''] [Raise KeyboardInterrupt] True []) \<noteq>
       Some (RiptideCliError ''Error starting the services'' KeyboardInterrupt)
   \<and> fst (stop_project env45 [''web''] [Raise KeyboardInterrupt] True []) = Some KeyboardInterrupt
   \<and> fst (stop_project env45 [''web''] [Raise KeyboardInterrupt] True []) \<noteq>
       Some (RiptideCliError ''Error stopping the services'' KeyboardInterrupt)"
  by code_simp

section \<open>Events for a service that is not on the board\<close>

text \<open>
  C10 (as amended). An event for a service outside the board, other than a finished event
  without payload, makes the handler raise: \<open>KeyError\<close> when the payload fits the flag (a
  failure with \<open>finished\<close>, an in-progress payload without), \<open>AttributeError\<close> otherwise,
  raised before the board is addressed. The loop of the operation wraps the exception into
  the \<open>RiptideCliError\<close> of the operation, which ends it.
\<close>

theorem unregistered_service_aborts:
  assumes "services \<noteq> []" and "name \<notin> set services"
    and "\<not> (finished \<and> status = Absent)"
    and "fst (consume ev pre (board_state banner ev services)) = None"
  shows "fst (handle_progress_bar ev name status finished
               (snd (consume ev pre (board_state banner ev services)))) =
           Some (case (status, finished) of
                   (Failure m, True) \<Rightarrow> KeyError name
                 | (InProgress t c st, False) \<Rightarrow> KeyError name
                 | _ \<Rightarrow> AttributeError)
    \<and> fst (run_lifecycle banner msg ev services (pre @ Event name status finished # rest)
             show_status status_report) =
        Some (RiptideCliError msg
               (case (status, finished) of
                  (Failure m, True) \<Rightarrow> KeyError name
                | (InProgress t c st, False) \<Rightarrow> KeyError name
                | _ \<Rightarrow> AttributeError))"
proof -
  let ?s0 = "board_state banner ev services"
  let ?e = "case (status, finished) of
                  (Failure m, True) \<Rightarrow> KeyError name
                | (InProgress t c st, False) \<Rightarrow> KeyError name
                | _ \<Rightarrow> AttributeError"
  obtain bars where b: "fst (build_progress_bars ev services) = Inr bars"
    and keys: "fst ` set (progress_bars ?s0) = set services"
    using board_state_nonempty [OF assms(1), of ev banner] by auto
  obtain s1 where c: "consume ev pre ?s0 = (None, s1)"
    using assms(4) by (cases "consume ev pre ?s0") auto
  from consume_keeps [of ev pre ?s0] c
  have "map fst (progress_bars s1) = map fst (progress_bars ?s0)" by simp
  then have "set (map fst (progress_bars s1)) = set (map fst (progress_bars ?s0))" by simp
  with keys assms(2) have "name \<notin> fst ` set (progress_bars s1)" by simp
  then have "map_of (progress_bars s1) name = None" by (simp add: map_of_eq_None_iff)
  from handle_unregistered [OF this assms(3), of ev]
  have h: "fst (handle_progress_bar ev name status finished s1) = Some ?e" .
  then obtain s2 where h2: "handle_progress_bar ev name status finished s1 = (Some ?e, s2)"
    by (cases "handle_progress_bar ev name status finished s1") auto
  have isx: "is_Exception ?e" by (cases status; cases finished) simp_all
  have "consume ev (pre @ Event name status finished # rest) ?s0 = (Some ?e, s2)"
    by (simp add: consume_append c h2)
  then have "fst (run_lifecycle banner msg ev services (pre @ Event name status finished # rest)
             show_status status_report) = Some (RiptideCliError msg ?e)"
    using isx by (simp add: run_lifecycle_def b try_stream_def)
  with h c show ?thesis by simp
qed

theorem unregistered_service_aborts_witness:
  "[''web''] \<noteq> [] \<and> ''ghost'' \<notin> set [''web'']
   \<and> \<not> (False \<and> InProgress ''hello'' 1 None = Absent)
   \<and> fst (consume env45 [] (started env45 [''web''])) = None
   \<and> fst (handle_progress_bar env45 ''ghost'' (InProgress ''hello'' 1 None) False
            (snd (consume env45 [] (started env45 [''web''])))) = Some (KeyError ''ghost'')
   \<and> fst (start_project env45 [''web'']
            ([] @ Event ''ghost'' (InProgress ''hello'' 1 None) False # []) True []) =
       Some (RiptideCliError ''Error starting the services'' (KeyError ''ghost''))"
proof -
  have h1: "[''web''] \<noteq> []" and h2: "''ghost'' \<notin> set [''web'']"
    and h3: "\<not> (False \<and> InProgress ''hello'' 1 None = Absent)" by simp_all
  have h4: "fst (consume env45 [] (board_state ''Starting services...'' env45 [''web''])) = None"
    by simp
  have c: "(case (InProgress ''hello'' 1 None, False) of
                   (Failure m, True) \<Rightarrow> KeyError ''ghost''
                 | (InProgress t c st, False) \<Rightarrow> KeyError ''ghost''
                 | _ \<Rightarrow> AttributeError) = KeyError ''ghost''" by simp
  note r = unregistered_service_aborts [OF h1 h2 h3 h4, of "''Error starting the services''"
      "[]" True "[]", unfolded c]
  show ?thesis unfolding start_project_def started_def using h1 h2 h3 h4 r by blast
qed

text \<open>
  C10 as stated, for every event, fails for a finished event without payload: the
  handler does not address the board, the event is ignored and the operation completes.
\<close>

theorem unregistered_success_ignored_counterexample:
  "map_of (progress_bars (started env45 [''web''])) ''ghost'' = None
   \<and> handle_progress_bar env45 ''ghost'' Absent True (started env45 [''web'']) =
       (None, started env45 [''web''])
   \<and> fst (start_project env45 [''web''] [Event ''ghost'' Absent True] True []) = None
   \<and> fst (stop_project env45 [''web''] [Event ''ghost'' Absent True] True []) = None"
  by code_simp

end
